theory Spec2Isabelle
  imports Main "HOL-Library.Word"
begin

unbundle bit_operations_syntax

section \<open>The class \<open>fenwick_tree\<close> of \<open>fenwick_tree.hpp\<close>\<close>

text \<open>
  The class template \<open>fenwick_tree<T>\<close> has one data member, the vector \<open>tree\<close>.

  The element type \<open>T\<close> is a machine integer of some width \<open>w\<close>, modelled by
  \<open>'w word\<close>: \<open>+\<close> and \<open>-\<close> are the additions and subtractions of \<open>T\<close>, which
  wrap around modulo \<open>2 ^ w\<close>. An unsigned \<open>T\<close> is read through \<open>uint\<close>, a signed
  one (two's complement) through \<open>sint\<close>. The concrete inputs below take
  \<open>T = int\<close> with 32 bits, as the example program does. The type \<open>bool\<close> and the
  floating-point types, which the template admits as well, are not words and are not
  part of this model.

  The index type \<open>signed_type\<close> is the vector's \<open>difference_type\<close>, taken as the
  64-bit \<open>ptrdiff_t\<close>. Indices are integers, with \<open>AND\<close> and \<open>OR\<close> the two's
  complement operations. The two index computations that can leave the 64-bit range
  are \<open>++j\<close> in \<open>update\<close> at the largest value and \<open>--i\<close> in \<open>sum(i, j)\<close> at the
  smallest; their wrap-around is written out. All other index computations stay within
  twice the size of the vector.

  Outcomes of a member function:
  \<^item> an exception is \<open>Inl\<close> of an \<open>error\<close>. The three exceptions of the class are
    all of the C++ class \<open>std::out_of_range\<close>: \<open>ExceedsRange\<close> is the one thrown by
    \<open>sum(i)\<close> ("exceeds range"), \<open>NegativeRange\<close> the one thrown by \<open>sum(i, j)\<close>
    and \<open>update\<close> ("has a negative range"), \<open>VectorAt\<close> the one of \<open>vector::at\<close>;
  \<^item> \<open>OutOfBounds\<close> stands for an access \<open>tree[k]\<close> through the unchecked
    \<open>operator[]\<close> with \<open>k\<close> outside the vector, which is undefined behaviour;
  \<^item> a loop that may run forever returns an \<open>option\<close>, and \<open>None\<close> is
    "does not return".
\<close>

datatype error = ExceedsRange | NegativeRange | VectorAt | OutOfBounds

record 'a fenwick_tree =
  tree :: "'a list"

text \<open>\<open>size()\<close>: the distance from \<open>tree.begin()\<close> to \<open>tree.end()\<close>, a signed value.\<close>

definition size_ft :: "'w::len word fenwick_tree \<Rightarrow> int" where
  "size_ft t = int (length (tree t))"

subsection \<open>\<open>construct\<close>\<close>

text \<open>
  The inner loop of \<open>construct\<close>:
  \<^verbatim>\<open>for (auto index{std::distance(begin, it)}; index < size(); index = index | (index + 1))
      tree.at(index) += *it;\<close>
  \<open>vector::at\<close> throws for an index outside the vector; a negative \<open>index\<close> is
  converted to a huge unsigned one and is outside as well.
\<close>

function construct_inner :: "'w::len word list \<Rightarrow> int \<Rightarrow> 'w word \<Rightarrow> error + 'w word list" where
  "construct_inner tr index v =
     (if index < int (length tr)
      then (if 0 \<le> index
            then construct_inner (tr[nat index := tr ! nat index + v]) (index OR (index + 1)) v
            else Inl VectorAt)
      else Inr tr)"
  by pat_completeness auto
termination
proof (relation "measure (\<lambda>(tr, index, v). nat (int (length tr) - index))")
  show "wf (measure (\<lambda>(tr, index, v). nat (int (length tr) - index)))"
    by simp
next
  fix tr :: "'w::len word list" and index :: int and v :: "'w word"
  assume a: "index < int (length tr)" "0 \<le> index"
  have "index + 1 \<le> (index + 1) OR index"
    using a(2) by (intro or_greater_eq)
  hence "index < index OR (index + 1)"
    by (simp add: or.commute)
  thus "((tr[nat index := tr ! nat index + v], index OR (index + 1), v), (tr, index, v))
        \<in> measure (\<lambda>(tr, index, v). nat (int (length tr) - index))"
    using a by simp
qed

declare construct_inner.simps [simp del]

text \<open>
  The outer loop of \<open>construct\<close> runs over the input sequence; \<open>idx\<close> is
  \<open>std::distance(begin, it)\<close>.
\<close>

fun construct_outer :: "'w::len word list \<Rightarrow> int \<Rightarrow> 'w word list \<Rightarrow> error + 'w word list" where
  "construct_outer tr idx [] = Inr tr"
| "construct_outer tr idx (x # xs) =
     (case construct_inner tr idx x of
        Inl e \<Rightarrow> Inl e
      | Inr tr' \<Rightarrow> construct_outer tr' (idx + 1) xs)"

text \<open>\<open>construct(begin, end)\<close>: \<open>tree.assign(n, 0)\<close>, then the two loops.\<close>

definition construct :: "'w::len word list \<Rightarrow> error + 'w word fenwick_tree" where
  "construct xs =
     (case construct_outer (replicate (length xs) 0) 0 xs of
        Inl e \<Rightarrow> Inl e
      | Inr tr \<Rightarrow> Inr \<lparr>tree = tr\<rparr>)"

subsection \<open>The three overloads of \<open>sum\<close>\<close>

text \<open>
  The loop of \<open>sum(i)\<close>:
  \<^verbatim>\<open>for (; i >= 0; i = (i & (i + 1)) - 1) result += tree.at(i);\<close>
\<close>

function sum_loop :: "'w::len word list \<Rightarrow> int \<Rightarrow> 'w word \<Rightarrow> error + 'w word" where
  "sum_loop tr i result =
     (if 0 \<le> i
      then (if i < int (length tr)
            then sum_loop tr ((i AND (i + 1)) - 1) (result + tr ! nat i)
            else Inl VectorAt)
      else Inr result)"
  by pat_completeness auto
termination
proof (relation "measure (\<lambda>(tr, i, result). nat (i + 1))")
  show "wf (measure (\<lambda>(tr, i, result). nat (i + 1)))"
    by simp
next
  fix tr :: "'w::len word list" and i :: int and result :: "'w word"
  assume a: "0 \<le> i" "i < int (length tr)"
  have "i AND (i + 1) \<le> i"
    using a(1) by (rule AND_upper1)
  thus "((tr, (i AND (i + 1)) - 1, result + tr ! nat i), (tr, i, result))
        \<in> measure (\<lambda>(tr, i, result). nat (i + 1))"
    using a by simp
qed

declare sum_loop.simps [simp del]

text \<open>\<open>sum(signed_type i)\<close>.\<close>

definition sum_upto :: "'w::len word fenwick_tree \<Rightarrow> int \<Rightarrow> error + 'w word" where
  "sum_upto t i =
     (if i < 0 \<or> i \<ge> size_ft t then Inl ExceedsRange
      else if size_ft t = 0 then Inr 0
      else sum_loop (tree t) i 0)"

text \<open>\<open>sum()\<close>.\<close>

definition sum_all :: "'w::len word fenwick_tree \<Rightarrow> error + 'w word" where
  "sum_all t = (if size_ft t = 0 then Inr 0 else sum_upto t (size_ft t - 1))"

text \<open>
  \<open>sum(signed_type i, signed_type j)\<close>. The decrement \<open>--i\<close> wraps from the
  smallest 64-bit value to the largest.
\<close>

definition sum_range :: "'w::len word fenwick_tree \<Rightarrow> int \<Rightarrow> int \<Rightarrow> error + 'w word" where
  "sum_range t i j =
     (if i > j then Inl NegativeRange
      else case sum_upto t j of
             Inl e \<Rightarrow> Inl e
           | Inr upper \<Rightarrow>
               (let i' = (if i = - (2 ^ 63) then 2 ^ 63 - 1 else i - 1)
                in if i' < 0 then Inr upper
                   else case sum_upto t i' of
                          Inl e \<Rightarrow> Inl e
                        | Inr lower \<Rightarrow> Inr (upper - lower)))"

subsection \<open>\<open>update\<close>\<close>

text \<open>
  Each of the two loops of \<open>update\<close> has the shape
  \<^verbatim>\<open>for (; k <= size(); k += k & (-k)) tree[k] += v;\<close>
  with \<open>v\<close> being \<open>-value\<close> in the first loop and \<open>value\<close> in the second.
  \<open>tree[k]\<close> is the unchecked \<open>operator[]\<close>. The loop need not end, so it is a
  partial function: \<open>None\<close> is "does not return".
\<close>

partial_function (option) update_loop ::
  "'w::len word list \<Rightarrow> int \<Rightarrow> 'w word \<Rightarrow> (error + 'w word list) option" where
  [code]: "update_loop tr k v =
     (if k \<le> int (length tr)
      then (if 0 \<le> k \<and> k < int (length tr)
            then update_loop (tr[nat k := tr ! nat k + v]) (k + (k AND (- k))) v
            else Some (Inl OutOfBounds))
      else Some (Inr tr))"

text \<open>
  \<open>update(i, j, value)\<close>. The result \<open>Some (Inr (b, t'))\<close> is the returned flag
  \<open>b\<close> with the structure \<open>t'\<close> after the call. The increment \<open>++j\<close> wraps
  from the largest 64-bit value to the smallest.
\<close>

definition update ::
  "'w::len word fenwick_tree \<Rightarrow> int \<Rightarrow> int \<Rightarrow> 'w word \<Rightarrow> (error + bool \<times> 'w word fenwick_tree) option" where
  "update t i j v =
     (if i > j then Some (Inl NegativeRange)
      else let j' = (if j = 2 ^ 63 - 1 then - (2 ^ 63) else j + 1)
           in if i < 0 \<or> j' < 0 \<or> i \<ge> size_ft t \<or> j' \<ge> size_ft t
              then Some (Inr (False, t))
              else case update_loop (tree t) j' (- v) of
                     None \<Rightarrow> None
                   | Some (Inl e) \<Rightarrow> Some (Inl e)
                   | Some (Inr tr1) \<Rightarrow>
                       (case update_loop tr1 i v of
                          None \<Rightarrow> None
                        | Some (Inl e) \<Rightarrow> Some (Inl e)
                        | Some (Inr tr2) \<Rightarrow> Some (Inr (True, t\<lparr>tree := tr2\<rparr>))))"


subsection \<open>The layout of the buffer\<close>

text \<open>
  The buffer \<open>tr\<close> encodes the logical sequence \<open>xs\<close> when slot \<open>k\<close> holds the
  sum of the logical elements from index \<open>k AND (k + 1)\<close> to index \<open>k\<close>. This is
  the layout that the loop of \<open>sum(i)\<close> reads and the loops of \<open>construct\<close> write.
\<close>

definition fenwick_inv :: "'w::len word list \<Rightarrow> 'w word list \<Rightarrow> bool" where
  "fenwick_inv tr xs \<longleftrightarrow>
     length tr = length xs \<and>
     (\<forall>k. 0 \<le> k \<and> k < int (length xs) \<longrightarrow>
        tr ! nat k = (\<Sum>l \<in> {k AND (k + 1) .. k}. xs ! nat l))"

section \<open>Properties of the loops\<close>

subsection \<open>The index arithmetic\<close>





lemma parity_cases_int:
  obtains q :: int where "k = 2 * q" | q :: int where "k = 2 * q + 1"
  by (metis even_iff_mod_2_eq_zero odd_iff_mod_2_eq_one mult_div_mod_eq add.right_neutral)




lemma lowbit_pos: "1 \<le> k \<Longrightarrow> 1 \<le> k AND (- k)" for k :: int
proof (induction "nat k" arbitrary: k rule: less_induct)
  case less
  show ?case
  proof (cases k rule: parity_cases_int)
    case (1 q)
    have q: "1 \<le> q" "nat q < nat k" using less.prems 1 by simp_all
    have "(- (2 * q)) div 2 = - q" by simp
    hence "(2 * q) AND (- (2 * q)) = 2 * (q AND (- q))"
      by (subst and_rec) simp
    thus ?thesis using less.hyps[OF q(2) q(1)] 1 by simp
  next
    case (2 q)
    have "0 \<le> k AND (- k)" using less.prems by simp
    moreover have "odd (k AND (- k))" using 2 by (simp add: even_and_iff)
    ultimately show ?thesis by presburger
  qed
qed

subsection \<open>The loop of \<open>sum(i)\<close>\<close>

text \<open>
  Started below the size of the vector, the loop of \<open>sum(i)\<close> never leaves the vector
  and adds one fixed amount to the accumulator.
\<close>

lemma sum_loop_accum:
  "i < int (length tr) \<Longrightarrow> \<exists>s. \<forall>acc. sum_loop tr i acc
      = Inr (acc + s)"
proof (induction "nat (i + 1)" arbitrary: i rule: less_induct)
  case less
  show ?case
  proof (cases "0 \<le> i")
    case False
    hence "\<forall>acc. sum_loop tr i acc = Inr (acc + 0)"
      by (simp add: sum_loop.simps[of tr i])
    thus ?thesis by blast
  next
    case True
    let ?i' = "(i AND (i + 1)) - 1"
    have le: "i AND (i + 1) \<le> i" using True by (rule AND_upper1)
    have "nat (?i' + 1) < nat (i + 1)" "?i' < int (length tr)"
      using True less.prems le by linarith+
    from less.hyps[OF this] obtain s where s: "\<forall>acc. sum_loop tr ?i' acc = Inr (acc + s)"
      by blast
    have "\<forall>acc. sum_loop tr i acc = Inr (acc + (tr ! nat i + s))"
      using True less.prems s by (simp add: sum_loop.simps[of tr i] add.assoc)
    thus ?thesis by blast
  qed
qed

lemma sum_upto_in_range:
  "0 \<le> i \<Longrightarrow> i < size_ft t \<Longrightarrow> \<exists>s. sum_upto t i = Inr s"
  using sum_loop_accum[of i "tree t"] by (auto simp: sum_upto_def size_ft_def)

subsection \<open>The loops of \<open>update\<close>\<close>

text \<open>
  Started at slot 0 of a non-empty buffer, the loop stays at slot 0. Started at a slot
  \<open>k \<ge> 1\<close>, it writes no slot below \<open>k\<close>, and slot \<open>k\<close> once.
\<close>

lemma update_loop_at_zero:
  assumes "update_loop tr k v = Some y"
  shows "k \<noteq> 0 \<or> tr = []"
proof (rule update_loop.raw_induct[where P = "\<lambda>tr k v y. k \<noteq> 0 \<or> tr = []", OF _ assms])
  fix f :: "'w::len word list \<Rightarrow> int \<Rightarrow> 'w word \<Rightarrow> (error + 'w word list) option"
    and tr :: "'w word list" and k :: int and v :: "'w word" and y :: "error + 'w word list"
  assume IH: "\<And>tr k v y. f tr k v = Some y \<Longrightarrow> k \<noteq> 0 \<or> tr = []"
  assume step: "(if k \<le> int (length tr)
      then (if 0 \<le> k \<and> k < int (length tr)
            then f (tr[nat k := tr ! nat k + v]) (k + (k AND (- k))) v
            else Some (Inl OutOfBounds))
      else Some (Inr tr)) = Some y"
  show "k \<noteq> 0 \<or> tr = []"
  proof (rule ccontr)
    assume "\<not> (k \<noteq> 0 \<or> tr = [])"
    hence k: "k = 0" and tr: "tr \<noteq> []" by simp_all
    from step k tr have "f (tr[0 := tr ! 0 + v]) 0 v = Some y"
      by simp
    from IH[OF this] show False using tr by simp
  qed
qed

lemma update_loop_diverges: "tr \<noteq> [] \<Longrightarrow> update_loop tr 0 v = None"
  using update_loop_at_zero[of tr 0 v] by (cases "update_loop tr 0 v") auto

lemma update_loop_frame_aux:
  assumes "update_loop tr k v = Some y"
  shows "\<forall>tr'. y = Inr tr' \<and> 1 \<le> k \<longrightarrow>
        length tr' = length tr \<and> (\<forall>m. int m < k \<longrightarrow> tr' ! m = tr ! m) \<and>
        (k < int (length tr) \<longrightarrow> tr' ! nat k = tr ! nat k + v)"
proof (rule update_loop.raw_induct[where P = "\<lambda>tr k v y. \<forall>tr'. y
    = Inr tr' \<and> 1 \<le> k \<longrightarrow>
        length tr' = length tr \<and> (\<forall>m. int m < k \<longrightarrow> tr' ! m = tr ! m) \<and>
        (k < int (length tr) \<longrightarrow> tr' ! nat k = tr ! nat k + v)", OF _ assms])
  fix f :: "'w::len word list \<Rightarrow> int \<Rightarrow> 'w word \<Rightarrow> (error + 'w word list) option"
    and tr :: "'w word list" and k :: int and v :: "'w word" and y :: "error + 'w word list"
  assume IH: "\<And>tr k v y. f tr k v = Some y \<Longrightarrow> \<forall>tr'. y
      = Inr tr' \<and> 1 \<le> k \<longrightarrow>
        length tr' = length tr \<and> (\<forall>m. int m < k \<longrightarrow> tr' ! m = tr ! m) \<and>
        (k < int (length tr) \<longrightarrow> tr' ! nat k = tr ! nat k + v)"
  assume step: "(if k \<le> int (length tr)
      then (if 0 \<le> k \<and> k < int (length tr)
            then f (tr[nat k := tr ! nat k + v]) (k + (k AND (- k))) v
            else Some (Inl OutOfBounds))
      else Some (Inr tr)) = Some y"
  show "\<forall>tr'. y = Inr tr' \<and> 1 \<le> k \<longrightarrow>
        length tr' = length tr \<and> (\<forall>m. int m < k \<longrightarrow> tr' ! m = tr ! m) \<and>
        (k < int (length tr) \<longrightarrow> tr' ! nat k = tr ! nat k + v)"
  proof (intro allI impI)
    fix tr' assume a: "y = Inr tr' \<and> 1 \<le> k"
    hence y: "y = Inr tr'" and k1: "1 \<le> k" by simp_all
    show "length tr' = length tr \<and> (\<forall>m. int m < k \<longrightarrow> tr' ! m = tr ! m) \<and>
        (k < int (length tr) \<longrightarrow> tr' ! nat k = tr ! nat k + v)"
    proof (cases "k < int (length tr)")
      case False
      with step y have "tr' = tr"
        by (simp split: if_splits)
      thus ?thesis using False by simp
    next
      case True
      let ?tr = "tr[nat k := tr ! nat k + v]"
      let ?k = "k + (k AND (- k))"
      have step': "k < ?k" "1 \<le> ?k" using lowbit_pos[OF k1] k1 by linarith+
      from step True k1 have "f ?tr ?k v = Some y"
        by simp
      from IH[OF this] y step'(2)
      have ih: "length tr' = length ?tr" "\<forall>m. int m < ?k \<longrightarrow> tr' ! m = ?tr ! m"
        by blast+
      have a: "length tr' = length tr" using ih(1) by simp
      have b: "\<forall>m. int m < k \<longrightarrow> tr' ! m = tr ! m"
      proof (intro allI impI)
        fix m assume m: "int m < k"
        hence "int m < ?k" using step'(1) by linarith
        hence "tr' ! m = ?tr ! m" using ih(2) by blast
        moreover have "m \<noteq> nat k" using m by linarith
        ultimately show "tr' ! m = tr ! m" by simp
      qed
      have "int (nat k) < ?k" using step'(1) k1 by simp
      hence "tr' ! nat k = ?tr ! nat k" using ih(2) by blast
      moreover have "nat k < length tr" using True k1 by linarith
      ultimately have c: "tr' ! nat k = tr ! nat k + v" by simp
      show ?thesis using a b c by blast
    qed
  qed
qed

lemma update_loop_frame:
  assumes "update_loop tr k v = Some (Inr tr')" "1 \<le> k"
  shows "length tr' = length tr" "\<forall>m. int m < k \<longrightarrow> tr' ! m = tr ! m"
    "k < int (length tr) \<Longrightarrow> tr' ! nat k = tr ! nat k + v"
  using update_loop_frame_aux[OF assms(1)] assms(2) by blast+

text \<open>
  Started at a slot \<open>k \<ge> 1\<close>, the loop of \<open>update\<close> returns: it ends above the
  size, or at the size with the access outside the buffer.
\<close>

lemma update_loop_returns: "1 \<le> k \<Longrightarrow> \<exists>y. update_loop tr k v = Some y"
proof (induction "nat (int (length tr) + 1 - k)" arbitrary: tr k rule: less_induct)
  case less
  show ?case
  proof (cases "k < int (length tr)")
    case False
    thus ?thesis by (subst update_loop.simps) simp
  next
    case True
    let ?tr = "tr[nat k := tr ! nat k + v]"
    let ?k = "k + (k AND (- k))"
    have step: "k < ?k" "1 \<le> ?k" using lowbit_pos[OF less.prems] less.prems by linarith+
    have "nat (int (length ?tr) + 1 - ?k) < nat (int (length tr) + 1 - k)"
      using step(1) True by simp
    from less.hyps[OF this step(2)] obtain y where "update_loop ?tr ?k v = Some y"
      by blast
    moreover have "update_loop tr k v = update_loop ?tr ?k v"
      using True less.prems by (subst update_loop.simps) simp
    ultimately show ?thesis by simp
  qed
qed

text \<open>A call of \<open>update\<close> that returns true has \<open>1 \<le> i\<close>.\<close>

lemma update_true_lower_bound:
  assumes "update t i j v = Some (Inr (True, t'))"
  shows "1 \<le> i"
proof -
  from assms have i0: "0 \<le> i" and jn: "i < int (length (tree t))"
    by (auto simp: update_def Let_def size_ft_def split: if_splits)
  from assms obtain tr1 tr2 where
    l1: "update_loop (tree t) (j + 1) (- v) = Some (Inr tr1)" and
    l2: "update_loop tr1 i v = Some (Inr tr2)"
    by (auto simp: update_def Let_def size_ft_def split: if_splits option.splits sum.splits)
  have "1 \<le> j + 1" using assms i0
    by (auto simp: update_def Let_def split: if_splits)
  from update_loop_frame(1)[OF l1 this] have "tr1 \<noteq> []" using i0 jn by auto
  hence "i \<noteq> 0" using update_loop_diverges[of tr1 v] l2 by auto
  thus ?thesis using i0 by linarith
qed

text \<open>The loop of \<open>sum(i)\<close> reads no slot above its start.\<close>

lemma sum_loop_cong:
  "length tr' = length tr \<Longrightarrow> (\<forall>m. int m \<le> i \<longrightarrow> tr' ! m = tr ! m) \<Longrightarrow>
     sum_loop tr' i acc = sum_loop tr i acc"
proof (induction "nat (i + 1)" arbitrary: i acc rule: less_induct)
  case less
  show ?case
  proof (cases "0 \<le> i \<and> i < int (length tr)")
    case False
    thus ?thesis using less.prems(1)
      by (simp add: sum_loop.simps[of tr i] sum_loop.simps[of tr' i])
  next
    case True
    let ?i' = "(i AND (i + 1)) - 1"
    have le: "i AND (i + 1) \<le> i" using True by (intro AND_upper1) simp
    have d: "nat (?i' + 1) < nat (i + 1)" using True le by linarith
    have "\<forall>m. int m \<le> ?i' \<longrightarrow> tr' ! m = tr ! m"
    proof (intro allI impI)
      fix m assume "int m \<le> ?i'"
      hence "int m \<le> i" using le by linarith
      thus "tr' ! m = tr ! m" using less.prems(2) by blast
    qed
    from less.hyps[OF d less.prems(1) this]
    have ih: "\<And>acc. sum_loop tr' ?i' acc = sum_loop tr ?i' acc" .
    have "int (nat i) \<le> i" using True by simp
    hence "tr' ! nat i = tr ! nat i" using less.prems(2) by blast
    thus ?thesis using True less.prems(1) ih
      by (simp add: sum_loop.simps[of tr i] sum_loop.simps[of tr' i])
  qed
qed

subsection \<open>Construction establishes the layout\<close>

lemma sum_loop_prefix:
  assumes "fenwick_inv tr xs"
  shows "i < int (length xs) \<Longrightarrow> sum_loop tr i acc
      = Inr (acc + (\<Sum>l \<in> {0 .. i}. xs ! nat l))"
proof (induction "nat (i + 1)" arbitrary: i acc rule: less_induct)
  case less
  have len: "length tr = length xs" using assms by (simp add: fenwick_inv_def)
  show ?case
  proof (cases "0 \<le> i")
    case False
    thus ?thesis by (simp add: sum_loop.simps[of tr i])
  next
    case True
    define g where "g = i AND (i + 1)"
    have g: "0 \<le> g" "g \<le> i" using True by (simp_all add: g_def)
    have d: "nat (g - 1 + 1) < nat (i + 1)" "g - 1 < int (length xs)"
      using g True less.prems by linarith+
    have slot: "tr ! nat i = (\<Sum>l \<in> {g .. i}. xs ! nat l)"
      using assms True less.prems by (simp add: fenwick_inv_def g_def)
    have split: "{0 .. i} = {0 .. g - 1} \<union> {g .. i}" "{0 .. g - 1} \<inter> {g .. i} = {}"
      using g by auto
    have "(\<Sum>l \<in> {0 .. i}. xs ! nat l)
          = (\<Sum>l \<in> {0 .. g - 1}. xs ! nat l) + (\<Sum>l \<in> {g .. i}. xs ! nat l)"
      unfolding split(1) using split(2) by (intro sum.union_disjoint) simp_all
    moreover have "sum_loop tr i acc = sum_loop tr (g - 1) (acc + tr ! nat i)"
      using True less.prems len by (simp add: sum_loop.simps[of tr i] g_def)
    ultimately show ?thesis
      using less.hyps[OF d, of "acc + tr ! nat i"] slot by simp
  qed
qed







lemma sum_upto_prefix:
  assumes "fenwick_inv (tree t) xs" "0 \<le> i" "i < int (length xs)"
  shows "sum_upto t i = Inr (\<Sum>l \<in> {0 .. i}. xs ! nat l)"
proof -
  have "length (tree t) = length xs" using assms(1) by (simp add: fenwick_inv_def)
  thus ?thesis using sum_loop_prefix[OF assms(1,3), of 0] assms(2,3)
    by (auto simp: sum_upto_def size_ft_def)
qed

subsection \<open>\<open>sum(i, j)\<close> on a buffer in the layout\<close>

text \<open>
  On every structure, and for \<open>0 \<le> i \<le> j < n\<close>, \<open>sum(i, j)\<close> is \<open>sum(j)\<close> when
  \<open>i = 0\<close> and \<open>sum(j) - sum(i - 1)\<close> otherwise.
\<close>

lemma sum_range_identity:
  assumes "0 \<le> i" "i \<le> j" "j < size_ft t"
  shows "\<exists>upper. sum_upto t j = Inr upper \<and>
           (if i = 0 then sum_range t i j = Inr upper
            else \<exists>lower. sum_upto t (i - 1) = Inr lower \<and> sum_range t i j
                = Inr (upper - lower))"
proof -
  have j0: "0 \<le> j" using assms by linarith
  obtain upper where upper: "sum_upto t j = Inr upper"
    using sum_upto_in_range[OF j0 assms(3)] by blast
  have nowrap: "i \<noteq> - (2 ^ 63)" using assms(1) by simp
  show ?thesis
  proof (cases "i = 0")
    case True
    thus ?thesis using upper j0 by (simp add: sum_range_def)
  next
    case False
    hence i1: "0 \<le> i - 1" "i - 1 < size_ft t" using assms by linarith+
    obtain lower where lower: "sum_upto t (i - 1) = Inr lower"
      using sum_upto_in_range[OF i1] by blast
    have "sum_range t i j = Inr (upper - lower)"
      using upper lower assms(2) i1(1) nowrap by (simp add: sum_range_def)
    thus ?thesis using False upper lower by simp
  qed
qed

text \<open>
  On a buffer in the layout of the logical sequence \<open>xs\<close>, \<open>sum(i, j)\<close> is
  \<open>xs[i] + ... + xs[j]\<close>.
\<close>

lemma sum_range_layout:
  assumes inv: "fenwick_inv (tree t) xs" and i: "0 \<le> i" and ij: "i \<le> j"
    and j: "j < int (length xs)"
  shows "sum_range t i j = Inr (\<Sum>l \<in> {i .. j}. xs ! nat l)"
proof -
  have j0: "0 \<le> j" using i ij by linarith
  have upper: "sum_upto t j = Inr (\<Sum>l \<in> {0 .. j}. xs ! nat l)"
    using sum_upto_prefix[OF inv j0 j] .
  have nowrap: "i \<noteq> - (2 ^ 63)" using i by simp
  show ?thesis
  proof (cases "i = 0")
    case True
    thus ?thesis using upper j0 by (simp add: sum_range_def)
  next
    case False
    hence i1: "0 \<le> i - 1" "i - 1 < int (length xs)" using i ij j by linarith+
    have lower: "sum_upto t (i - 1) = Inr (\<Sum>l \<in> {0 .. i - 1}. xs ! nat l)"
      using sum_upto_prefix[OF inv i1] .
    have split: "{0 .. j} = {0 .. i - 1} \<union> {i .. j}" "{0 .. i - 1} \<inter> {i .. j} = {}"
      using i ij by auto
    have "(\<Sum>l \<in> {0 .. j}. xs ! nat l)
          = (\<Sum>l \<in> {0 .. i - 1}. xs ! nat l) + (\<Sum>l \<in> {i .. j}. xs ! nat l)"
      unfolding split(1) using split(2) by (intro sum.union_disjoint) simp_all
    hence diff: "(\<Sum>l \<in> {0 .. j}. xs ! nat l) - (\<Sum>l \<in> {0 .. i - 1}. xs ! nat l)
                 = (\<Sum>l \<in> {i .. j}. xs ! nat l)"
      by simp
    have "sum_range t i j
          = Inr ((\<Sum>l \<in> {0 .. j}. xs ! nat l) - (\<Sum>l \<in> {0 .. i - 1}. xs ! nat l))"
      using upper lower ij i1(1) nowrap by (simp add: sum_range_def)
    thus ?thesis using diff by simp
  qed
qed

subsection \<open>The two index computations at the ends of the 64-bit range\<close>

text \<open>
  At the largest index, \<open>++j\<close> in \<open>update\<close> gives a negative value and the call
  returns false. At the smallest index, \<open>--i\<close> in \<open>sum(i, j)\<close> gives the largest
  value, and \<open>sum(i)\<close> throws there.
\<close>

lemma update_largest_index:
  "i \<le> 2 ^ 63 - 1 \<Longrightarrow> update t i (2 ^ 63 - 1) v = Some (Inr (False, t))"
  by (simp add: update_def)

lemma sum_range_smallest_index:
  assumes "0 \<le> j" "j < size_ft t" "size_ft t \<le> 2 ^ 63 - 1"
  shows "sum_range t (- (2 ^ 63)) j = Inl ExceedsRange"
proof -
  obtain upper where "sum_upto t j = Inr upper"
    using sum_upto_in_range[OF assms(1,2)] by blast
  moreover have "sum_upto t (2 ^ 63 - 1) = Inl ExceedsRange"
    using assms(3) by (simp add: sum_upto_def)
  ultimately show ?thesis
    using assms(1) by (simp add: sum_range_def)
qed

section \<open>The claims\<close>



text \<open>
  C2 fails on the code. On the structure built from \<open>[1, 6, 2, 4, 3, 5]\<close>,
  \<open>update(1, 3, 1)\<close> returns true and \<open>sum(1, 3)\<close> is 12 before and after the call,
  not \<open>12 + 1 * 3\<close>. On the same structure \<open>update(1, 2, 1)\<close> returns true and
  changes \<open>sum(3, 3)\<close>, a range outside \<open>[1, 2]\<close>, from 4 to 1.
\<close>

theorem update_range_sum_failing_input:
  "construct [1, 6, 2, 4, 3, 5 :: 32 word]
      = Inr \<lparr>tree = [1, 7, 2, 13, 3, 8 :: 32 word]\<rparr> \<and>
   sum_range \<lparr>tree = [1, 7, 2, 13, 3, 8 :: 32 word]\<rparr> 1 3 = Inr 12 \<and>
   update \<lparr>tree = [1, 7, 2, 13, 3, 8 :: 32 word]\<rparr> 1 3 1
       = Some (Inr (True, \<lparr>tree = [1, 8, 3, 13, 3, 8 :: 32 word]\<rparr>)) \<and>
   sum_range \<lparr>tree = [1, 8, 3, 13, 3, 8 :: 32 word]\<rparr> 1 3 = Inr 12 \<and>
   sum_range \<lparr>tree = [1, 7, 2, 13, 3, 8 :: 32 word]\<rparr> 3 3 = Inr 4 \<and>
   update \<lparr>tree = [1, 7, 2, 13, 3, 8 :: 32 word]\<rparr> 1 2 1
       = Some (Inr (True, \<lparr>tree = [1, 8, 3, 12, 3, 8 :: 32 word]\<rparr>)) \<and>
   sum_range \<lparr>tree = [1, 8, 3, 12, 3, 8 :: 32 word]\<rparr> 3 3 = Inr 1"
proof -
  have a: "construct [1, 6, 2, 4, 3, 5 :: 32 word]
      = Inr \<lparr>tree = [1, 7, 2, 13, 3, 8 :: 32 word]\<rparr>"
    by code_simp
  have b: "sum_range \<lparr>tree = [1, 7, 2, 13, 3, 8 :: 32 word]\<rparr> 1 3 = Inr 12"
    by code_simp
  have c: "update \<lparr>tree = [1, 7, 2, 13, 3, 8 :: 32 word]\<rparr> 1 3 1
      = Some (Inr (True, \<lparr>tree = [1, 8, 3, 13, 3, 8 :: 32 word]\<rparr>))"
    by code_simp
  have d: "sum_range \<lparr>tree = [1, 8, 3, 13, 3, 8 :: 32 word]\<rparr> 1 3 = Inr 12"
    by code_simp
  have e: "sum_range \<lparr>tree = [1, 7, 2, 13, 3, 8 :: 32 word]\<rparr> 3 3 = Inr 4" by code_simp
  have f: "update \<lparr>tree = [1, 7, 2, 13, 3, 8 :: 32 word]\<rparr> 1 2 1
      = Some (Inr (True, \<lparr>tree = [1, 8, 3, 12, 3, 8 :: 32 word]\<rparr>))"
    by code_simp
  have g: "sum_range \<lparr>tree = [1, 8, 3, 12, 3, 8 :: 32 word]\<rparr> 3 3 = Inr 1" by code_simp
  show ?thesis using a b c d e f g by blast
qed

text \<open>
  C3, as amended. If \<open>update(i, j, value)\<close> returns true, then \<open>sum(k)\<close> is
  unchanged for every \<open>k\<close> with \<open>0 \<le> k < i\<close>, and \<open>sum(i)\<close> is larger by exactly
  \<open>value\<close>, the addition taken in \<open>T\<close>. Nothing is said about \<open>sum(k)\<close> for
  \<open>k > i\<close>.
\<close>

theorem update_prefix_sum_at_lower_bound:
  assumes "update t i j v = Some (Inr (True, t'))"
  shows "(\<forall>k. 0 \<le> k \<and> k < i \<longrightarrow> sum_upto t' k = sum_upto t k) \<and>
         (\<exists>s. sum_upto t i = Inr s \<and> sum_upto t' i = Inr (s + v))"
proof -
  let ?n = "int (length (tree t))"
  from assms have ij: "i \<le> j" and i0: "0 \<le> i" and jn: "j + 1 < ?n"
    by (auto simp: update_def Let_def size_ft_def split: if_splits)
  from assms ij i0 jn obtain tr1 tr2 where
    l1: "update_loop (tree t) (j + 1) (- v) = Some (Inr tr1)" and
    l2: "update_loop tr1 i v = Some (Inr tr2)" and
    t': "t' = t\<lparr>tree := tr2\<rparr>"
    by (auto simp: update_def Let_def size_ft_def split: if_splits option.splits sum.splits)
  have j1: "1 \<le> j + 1" using ij i0 by linarith
  have f1: "length tr1 = length (tree t)" "\<forall>m. int m < j + 1 \<longrightarrow> tr1 ! m = tree t ! m"
    using update_loop_frame(1,2)[OF l1 j1] by blast+
  have ne: "tree t \<noteq> []" using jn i0 ij by auto
  hence "tr1 \<noteq> []" using f1(1) by auto
  hence "i \<noteq> 0" using update_loop_diverges[of tr1 v] l2 by auto
  hence i1: "1 \<le> i" using i0 by linarith
  have in_range: "i < ?n" using ij jn by linarith
  hence in_range1: "i < int (length tr1)" using f1(1) by simp
  have f2: "length tr2 = length tr1" "\<forall>m. int m < i \<longrightarrow> tr2 ! m = tr1 ! m"
    "tr2 ! nat i = tr1 ! nat i + v"
    using update_loop_frame[OF l2 i1] in_range1 by blast+
  have len: "length tr2 = length (tree t)" using f1(1) f2(1) by simp
  have below: "\<forall>m. int m < i \<longrightarrow> tr2 ! m = tree t ! m"
  proof (intro allI impI)
    fix m assume m: "int m < i"
    hence "int m < j + 1" using ij by linarith
    thus "tr2 ! m = tree t ! m" using f1(2) f2(2) m by simp
  qed
  have "int (nat i) < j + 1" using i0 ij by simp
  hence "tr1 ! nat i = tree t ! nat i" using f1(2) by blast
  hence at_i: "tr2 ! nat i = tree t ! nat i + v" using f2(3) by simp
  have size: "size_ft t' = size_ft t" using len t' by (simp add: size_ft_def)
  have part1: "\<forall>k. 0 \<le> k \<and> k < i \<longrightarrow> sum_upto t' k = sum_upto t k"
  proof (intro allI impI)
    fix k assume k: "0 \<le> k \<and> k < i"
    have "\<forall>m. int m \<le> k \<longrightarrow> tr2 ! m = tree t ! m" using below k by auto
    from sum_loop_cong[OF len this] show "sum_upto t' k = sum_upto t k"
      using size t' by (simp add: sum_upto_def)
  qed
  let ?i' = "(i AND (i + 1)) - 1"
  have le: "i AND (i + 1) \<le> i" using i0 by (rule AND_upper1)
  have "?i' < ?n" using le in_range by linarith
  from sum_loop_accum[OF this] obtain s where
    s: "\<forall>acc. sum_loop (tree t) ?i' acc = Inr (acc + s)" by blast
  have "\<forall>m. int m \<le> ?i' \<longrightarrow> tr2 ! m = tree t ! m"
  proof (intro allI impI)
    fix m assume "int m \<le> ?i'"
    hence "int m < i" using le by linarith
    thus "tr2 ! m = tree t ! m" using below by blast
  qed
  from sum_loop_cong[OF len this]
  have s': "\<forall>acc. sum_loop tr2 ?i' acc = Inr (acc + s)" using s by simp
  have before: "sum_upto t i = Inr (tree t ! nat i + s)"
    using i0 in_range s ne by (simp add: sum_upto_def size_ft_def sum_loop.simps[of "tree t" i])
  have ne2: "tr2 \<noteq> []" using ne len by auto
  have after: "sum_upto t' i = Inr (tree t ! nat i + s + v)"
    using i0 in_range s' len at_i t' ne2 ne
    by (simp add: sum_upto_def size_ft_def sum_loop.simps[of tr2 i])
  show ?thesis using part1 before after by blast
qed

theorem update_prefix_sum_at_lower_bound_witness:
  "update \<lparr>tree = [1, 7, 2, 13, 3, 8 :: 32 word]\<rparr> 3 3 (- 1)
      = Some (Inr (True, \<lparr>tree = [1, 7, 2, 12, 3, 8 :: 32 word]\<rparr>)) \<and>
   sum_upto \<lparr>tree = [1, 7, 2, 12, 3, 8 :: 32 word]\<rparr> 0
       = sum_upto \<lparr>tree = [1, 7, 2, 13, 3, 8 :: 32 word]\<rparr> 0 \<and>
   sum_upto \<lparr>tree = [1, 7, 2, 12, 3, 8 :: 32 word]\<rparr> 2
       = sum_upto \<lparr>tree = [1, 7, 2, 13, 3, 8 :: 32 word]\<rparr> 2 \<and>
   (\<exists>s. sum_upto \<lparr>tree = [1, 7, 2, 13, 3, 8 :: 32 word]\<rparr> 3 = Inr s
       \<and> sum_upto \<lparr>tree = [1, 7, 2, 12, 3, 8 :: 32 word]\<rparr> 3
       = Inr (s + (- 1))) \<and>
   update \<lparr>tree = [1, 3, 3, 10, 5 :: 32 word]\<rparr> 3 3 2147483647
       = Some (Inr (True, \<lparr>tree = [1, 3, 3, 2147483657, 5 :: 32 word]\<rparr>)) \<and>
   sum_upto \<lparr>tree = [1, 3, 3, 10, 5 :: 32 word]\<rparr> 3 = Inr 10 \<and>
   sum_upto \<lparr>tree = [1, 3, 3, 2147483657, 5 :: 32 word]\<rparr> 3
       = Inr (10 + 2147483647) \<and>
   sint (10 + 2147483647 :: 32 word) = - 2147483639"
proof -
  have h: "update \<lparr>tree = [1, 7, 2, 13, 3, 8 :: 32 word]\<rparr> 3 3 (- 1)
      = Some (Inr (True, \<lparr>tree = [1, 7, 2, 12, 3, 8 :: 32 word]\<rparr>))"
    by code_simp
  from update_prefix_sum_at_lower_bound[OF h]
  have below: "\<forall>k. 0 \<le> k \<and> k < 3 \<longrightarrow> sum_upto \<lparr>tree = [1, 7, 2, 12, 3, 8 :: 32 word]\<rparr> k
      = sum_upto \<lparr>tree = [1, 7, 2, 13, 3, 8 :: 32 word]\<rparr> k"
    and at: "\<exists>s. sum_upto \<lparr>tree = [1, 7, 2, 13, 3, 8 :: 32 word]\<rparr> 3 = Inr s
        \<and> sum_upto \<lparr>tree = [1, 7, 2, 12, 3, 8 :: 32 word]\<rparr> 3
        = Inr (s + (- 1))"
    by blast+
  have low: "sum_upto \<lparr>tree = [1, 7, 2, 12, 3, 8 :: 32 word]\<rparr> 0 = sum_upto \<lparr>tree = [1, 7, 2, 13, 3, 8 :: 32 word]\<rparr> 0"
      "sum_upto \<lparr>tree = [1, 7, 2, 12, 3, 8 :: 32 word]\<rparr> 2
      = sum_upto \<lparr>tree = [1, 7, 2, 13, 3, 8 :: 32 word]\<rparr> 2"
    using below by simp_all
  have h': "update \<lparr>tree = [1, 3, 3, 10, 5 :: 32 word]\<rparr> 3 3 2147483647
      = Some (Inr (True, \<lparr>tree = [1, 3, 3, 2147483657, 5 :: 32 word]\<rparr>))"
    by code_simp
  have before: "sum_upto \<lparr>tree = [1, 3, 3, 10, 5 :: 32 word]\<rparr> 3 = Inr 10"
    by code_simp
  from update_prefix_sum_at_lower_bound[OF h'] before
  have after: "sum_upto \<lparr>tree = [1, 3, 3, 2147483657, 5 :: 32 word]\<rparr> 3
      = Inr (10 + 2147483647)"
    by simp
  have wrap: "sint (10 + 2147483647 :: 32 word) = - 2147483639"
    by simp
  show ?thesis using h at low h' before after wrap by blast
qed

text \<open>
  C3 as stated fails. On the structure built from \<open>[1, 6, 2, 4, 3, 5]\<close>,
  \<open>update(3, 3, -1)\<close> returns true and lowers \<open>sum(4)\<close> from 16 to 15, although
  \<open>4 \<ge> j + 1\<close>; and \<open>update(1, 2, 1)\<close> returns true and raises \<open>sum(2)\<close> from 9 to
  11, by twice the value.
\<close>

theorem update_prefix_sums_counterexample:
  "construct [1, 6, 2, 4, 3, 5 :: 32 word]
      = Inr \<lparr>tree = [1, 7, 2, 13, 3, 8 :: 32 word]\<rparr> \<and>
   update \<lparr>tree = [1, 7, 2, 13, 3, 8 :: 32 word]\<rparr> 3 3 (- 1)
       = Some (Inr (True, \<lparr>tree = [1, 7, 2, 12, 3, 8 :: 32 word]\<rparr>)) \<and>
   sum_upto \<lparr>tree = [1, 7, 2, 13, 3, 8 :: 32 word]\<rparr> 4 = Inr 16 \<and>
   sum_upto \<lparr>tree = [1, 7, 2, 12, 3, 8 :: 32 word]\<rparr> 4 = Inr 15 \<and>
   update \<lparr>tree = [1, 7, 2, 13, 3, 8 :: 32 word]\<rparr> 1 2 1
       = Some (Inr (True, \<lparr>tree = [1, 8, 3, 12, 3, 8 :: 32 word]\<rparr>)) \<and>
   sum_upto \<lparr>tree = [1, 7, 2, 13, 3, 8 :: 32 word]\<rparr> 2 = Inr 9 \<and>
   sum_upto \<lparr>tree = [1, 8, 3, 12, 3, 8 :: 32 word]\<rparr> 2 = Inr 11"
proof -
  have a: "construct [1, 6, 2, 4, 3, 5 :: 32 word]
      = Inr \<lparr>tree = [1, 7, 2, 13, 3, 8 :: 32 word]\<rparr>"
    by code_simp
  have b: "update \<lparr>tree = [1, 7, 2, 13, 3, 8 :: 32 word]\<rparr> 3 3 (- 1)
      = Some (Inr (True, \<lparr>tree = [1, 7, 2, 12, 3, 8 :: 32 word]\<rparr>))"
    by code_simp
  have c: "sum_upto \<lparr>tree = [1, 7, 2, 13, 3, 8 :: 32 word]\<rparr> 4 = Inr 16" by code_simp
  have d: "sum_upto \<lparr>tree = [1, 7, 2, 12, 3, 8 :: 32 word]\<rparr> 4 = Inr 15" by code_simp
  have e: "update \<lparr>tree = [1, 7, 2, 13, 3, 8 :: 32 word]\<rparr> 1 2 1
      = Some (Inr (True, \<lparr>tree = [1, 8, 3, 12, 3, 8 :: 32 word]\<rparr>))"
    by code_simp
  have f: "sum_upto \<lparr>tree = [1, 7, 2, 13, 3, 8 :: 32 word]\<rparr> 2 = Inr 9" by code_simp
  have g: "sum_upto \<lparr>tree = [1, 8, 3, 12, 3, 8 :: 32 word]\<rparr> 2 = Inr 11" by code_simp
  show ?thesis using a b c d e f g by blast
qed

text \<open>
  C4 fails on the code. On the structure built from \<open>[1, 2, 3]\<close>,
  \<open>update(0, 0, 1)\<close> passes both checks, its first loop ends, and its second loop
  starts at \<open>i = 0\<close>, where the step \<open>i & (-i)\<close> is 0: the call does not return.
\<close>

theorem update_from_index_zero_diverges:
  "construct [1, 2, 3 :: 32 word] = Inr \<lparr>tree = [1, 3, 3 :: 32 word]\<rparr> \<and>
   update \<lparr>tree = [1, 3, 3 :: 32 word]\<rparr> 0 0 1 = None"
proof -
  have a: "construct [1, 2, 3 :: 32 word] = Inr \<lparr>tree = [1, 3, 3 :: 32 word]\<rparr>"
    by code_simp
  have l1: "update_loop [1, 3, 3 :: 32 word] 1 (- 1) = Some (Inr [1, 2, 2 :: 32 word])" by code_simp
  have l2: "update_loop [1, 2, 2 :: 32 word] 0 1 = None" by (rule update_loop_diverges) simp
  have "update \<lparr>tree = [1, 3, 3 :: 32 word]\<rparr> 0 0 1 = None"
    by (simp add: update_def size_ft_def l1 l2)
  thus ?thesis using a by blast
qed

text \<open>
  C5 fails on the code. On the structure built from \<open>[1, 2, 3, 4]\<close>,
  \<open>update(1, 1, 1)\<close> passes both checks, and its first loop goes from slot 2 to slot
  4, which the loop condition \<open>j <= size()\<close> admits and the buffer does not have.
\<close>

theorem update_writes_past_end:
  "construct [1, 2, 3, 4 :: 32 word] = Inr \<lparr>tree = [1, 3, 3, 10 :: 32 word]\<rparr> \<and>
   update \<lparr>tree = [1, 3, 3, 10 :: 32 word]\<rparr> 1 1 1 = Some (Inl OutOfBounds)"
proof -
  have a: "construct [1, 2, 3, 4 :: 32 word] = Inr \<lparr>tree = [1, 3, 3, 10 :: 32 word]\<rparr>"
    by code_simp
  have b: "update \<lparr>tree = [1, 3, 3, 10 :: 32 word]\<rparr> 1 1 1 = Some (Inl OutOfBounds)"
    by code_simp
  show ?thesis using a b by blast
qed

text \<open>
  C6 fails on the code. After \<open>update(1, 2, 1)\<close> has returned true on the structure
  built from \<open>[1, 6, 2, 4, 3, 5]\<close>, the logical sequence is \<open>[1, 7, 3, 4, 3, 5]\<close>,
  and \<open>sum(3, 3)\<close> returns 1, not the element 4.
\<close>

theorem sum_range_after_update_failing_input:
  "construct [1, 6, 2, 4, 3, 5 :: 32 word]
      = Inr \<lparr>tree = [1, 7, 2, 13, 3, 8 :: 32 word]\<rparr> \<and>
   update \<lparr>tree = [1, 7, 2, 13, 3, 8 :: 32 word]\<rparr> 1 2 1
       = Some (Inr (True, \<lparr>tree = [1, 8, 3, 12, 3, 8 :: 32 word]\<rparr>)) \<and>
   sum_range \<lparr>tree = [1, 8, 3, 12, 3, 8 :: 32 word]\<rparr> 3 3 = Inr 1 \<and>
   (\<Sum>l \<in> {3 .. (3::int)}. [1, 7, 3, 4, 3, 5 :: 32 word] ! nat l) = 4"
proof -
  have a: "construct [1, 6, 2, 4, 3, 5 :: 32 word]
      = Inr \<lparr>tree = [1, 7, 2, 13, 3, 8 :: 32 word]\<rparr>"
    by code_simp
  have b: "update \<lparr>tree = [1, 7, 2, 13, 3, 8 :: 32 word]\<rparr> 1 2 1
      = Some (Inr (True, \<lparr>tree = [1, 8, 3, 12, 3, 8 :: 32 word]\<rparr>))"
    by code_simp
  have c: "sum_range \<lparr>tree = [1, 8, 3, 12, 3, 8 :: 32 word]\<rparr> 3 3 = Inr 1" by code_simp
  have d: "(\<Sum>l \<in> {3 .. (3::int)}. [1, 7, 3, 4, 3, 5 :: 32 word] ! nat l) = 4" by code_simp
  show ?thesis using a b c d by blast
qed




text \<open>
  C8. On a structure of size \<open>n \<ge> 1\<close>, \<open>update(i, n - 1, value)\<close> with
  \<open>0 \<le> i \<le> n - 1\<close> returns false and changes nothing; whenever \<open>update(i, j, value)\<close>
  returns true, \<open>j \<le> n - 2\<close>.
\<close>

theorem update_last_index_never_succeeds:
  "(1 \<le> size_ft t \<and> 0 \<le> i \<and> i \<le> size_ft t - 1 \<longrightarrow>
      update t i (size_ft t - 1) v = Some (Inr (False, t))) \<and>
   (update t i' j' v' = Some (Inr (True, t')) \<longrightarrow> j' \<le> size_ft t - 2)"
  by (auto simp: update_def Let_def split: if_splits)

theorem update_last_index_never_succeeds_witness:
  "1 \<le> size_ft \<lparr>tree = [1, 2, 3, 4, 5 :: 32 word]\<rparr> \<and> (0::int) \<le> 1 \<and>
   1 \<le> size_ft \<lparr>tree = [1, 2, 3, 4, 5 :: 32 word]\<rparr> - 1 \<and>
   update \<lparr>tree = [1, 2, 3, 4, 5 :: 32 word]\<rparr> 1 (size_ft \<lparr>tree = [1, 2, 3, 4, 5 :: 32 word]\<rparr> - 1) 7
     = Some (Inr (False, \<lparr>tree = [1, 2, 3, 4, 5 :: 32 word]\<rparr>)) \<and>
   update \<lparr>tree = [1, 2, 3, 4, 5 :: 32 word]\<rparr> 1 3 7
       = Some (Inr (True, \<lparr>tree = [1, 9, 10, 4, 5 :: 32 word]\<rparr>)) \<and>
   (3::int) \<le> size_ft \<lparr>tree = [1, 2, 3, 4, 5 :: 32 word]\<rparr> - 2"
proof -
  have h1: "1 \<le> size_ft \<lparr>tree = [1, 2, 3, 4, 5 :: 32 word]\<rparr> \<and> (0::int) \<le> 1 \<and>
            1 \<le> size_ft \<lparr>tree = [1, 2, 3, 4, 5 :: 32 word]\<rparr> - 1"
    by (simp add: size_ft_def)
  have h2: "update \<lparr>tree = [1, 2, 3, 4, 5 :: 32 word]\<rparr> 1 3 7
      = Some (Inr (True, \<lparr>tree = [1, 9, 10, 4, 5 :: 32 word]\<rparr>))"
    by code_simp
  show ?thesis
    using h1 h2
      update_last_index_never_succeeds[of "\<lparr>tree = [1, 2, 3, 4, 5 :: 32 word]\<rparr>" 1 7 1 3 7
        "\<lparr>tree = [1, 9, 10, 4, 5 :: 32 word]\<rparr>"]
    by blast
qed

text \<open>
  C9. \<open>sum(i)\<close> throws its out-of-range exception exactly when \<open>i\<close> is outside
  \<open>[0, n)\<close>, and returns a value for every \<open>i\<close> inside; \<open>sum()\<close> always returns a
  value, and that value is 0 when \<open>n = 0\<close>.
\<close>

theorem sum_upto_fails_iff_outside:
  "(i < 0 \<or> size_ft t \<le> i \<longrightarrow> sum_upto t i = Inl ExceedsRange) \<and>
   (0 \<le> i \<and> i < size_ft t \<longrightarrow> (\<exists>s. sum_upto t i = Inr s)) \<and>
   (\<exists>s. sum_all t = Inr s) \<and>
   (size_ft t = 0 \<longrightarrow> sum_all t = Inr 0)"
proof -
  have a: "i < 0 \<or> size_ft t \<le> i \<longrightarrow> sum_upto t i = Inl ExceedsRange"
    by (simp add: sum_upto_def)
  have b: "0 \<le> i \<and> i < size_ft t \<longrightarrow> (\<exists>s. sum_upto t i = Inr s)"
    using sum_upto_in_range by blast
  have c: "\<exists>s. sum_all t = Inr s"
  proof (cases "size_ft t = 0")
    case True
    thus ?thesis by (simp add: sum_all_def)
  next
    case False
    hence "0 \<le> size_ft t - 1" "size_ft t - 1 < size_ft t"
      by (simp_all add: size_ft_def)
    from sum_upto_in_range[OF this] show ?thesis
      using False by (simp add: sum_all_def)
  qed
  have d: "size_ft t = 0 \<longrightarrow> sum_all t = Inr 0"
    by (simp add: sum_all_def)
  show ?thesis using a b c d by blast
qed

theorem sum_upto_fails_iff_outside_witness:
  "(-1::int) < 0
      \<and> sum_upto \<lparr>tree = [1, 7, 2 :: 32 word]\<rparr> (-1) = Inl ExceedsRange \<and>
   size_ft \<lparr>tree = [1, 7, 2 :: 32 word]\<rparr> \<le> 3
       \<and> sum_upto \<lparr>tree = [1, 7, 2 :: 32 word]\<rparr> 3 = Inl ExceedsRange \<and>
   (0::int) \<le> 2 \<and> 2 < size_ft \<lparr>tree = [1, 7, 2 :: 32 word]\<rparr>
       \<and> (\<exists>s. sum_upto \<lparr>tree = [1, 7, 2 :: 32 word]\<rparr> 2
       = Inr s) \<and>
   size_ft \<lparr>tree = [] :: 32 word list\<rparr> = 0 \<and> size_ft \<lparr>tree = [] :: 32 word list\<rparr> \<le> 0 \<and>
   sum_upto \<lparr>tree = [] :: 32 word list\<rparr> 0 = Inl ExceedsRange \<and> sum_all \<lparr>tree = [] :: 32 word list\<rparr>
       = Inr 0"
  using sum_upto_fails_iff_outside[of "-1" "\<lparr>tree = [1, 7, 2 :: 32 word]\<rparr>"]
    sum_upto_fails_iff_outside[of 3 "\<lparr>tree = [1, 7, 2 :: 32 word]\<rparr>"]
    sum_upto_fails_iff_outside[of 2 "\<lparr>tree = [1, 7, 2 :: 32 word]\<rparr>"]
    sum_upto_fails_iff_outside[of 0 "\<lparr>tree = [] :: 32 word list\<rparr>"]
  by (simp add: size_ft_def)

text \<open>
  C10. With \<open>i > j\<close>, both \<open>sum(i, j)\<close> and \<open>update(i, j, value)\<close> throw the
  negative-range exception, an exception of the same class as the out-of-range one of
  \<open>sum(i)\<close>; \<open>update\<close> does not use its boolean result for it. A window outside the
  bounds, with \<open>i \<le> j\<close>, is reported by \<open>update\<close> through the result false.
\<close>

theorem negative_range_throws:
  "(j < i \<longrightarrow> sum_range t i j = Inl NegativeRange \<and> update t i j v
      = Some (Inl NegativeRange)) \<and>
   (i \<le> j \<and> (i < 0 \<or> size_ft t \<le> j + 1) \<longrightarrow> update t i j v
       = Some (Inr (False, t)))"
  by (auto simp: sum_range_def update_def Let_def)

theorem negative_range_throws_witness:
  "(3::int) < 4 \<and>
   sum_range \<lparr>tree = [1, 7, 2, 13, 3, 8 :: 32 word]\<rparr> 4 3 = Inl NegativeRange \<and>
   update \<lparr>tree = [1, 7, 2, 13, 3, 8 :: 32 word]\<rparr> 4 3 1
       = Some (Inl NegativeRange) \<and>
   (4::int) \<le> 5 \<and> size_ft \<lparr>tree = [1, 7, 2, 13, 3, 8 :: 32 word]\<rparr> \<le> 5 + 1 \<and>
   update \<lparr>tree = [1, 7, 2, 13, 3, 8 :: 32 word]\<rparr> 4 5 1
       = Some (Inr (False, \<lparr>tree = [1, 7, 2, 13, 3, 8 :: 32 word]\<rparr>))"
  using negative_range_throws[of 3 4 "\<lparr>tree = [1, 7, 2, 13, 3, 8 :: 32 word]\<rparr>" 1]
    negative_range_throws[of 5 4 "\<lparr>tree = [1, 7, 2, 13, 3, 8 :: 32 word]\<rparr>" 1]
  by (simp add: size_ft_def)

end
